theory Spec2Isabelle
  imports Complex_Main "HOL-Library.Sublist" "HOL-Library.Log_Nat"
begin

section \<open>Angles\<close>

text \<open>
  The program computes on Python floats, that is on binary64 values. Two readings of its
  arithmetic are given. This section and the next ones read a float as the real number it
  stands for and every operation as exact; this is the reading of the properties that do
  not depend on rounding: the value at given exactly representable angles, the sign
  convention, the tolerance test of the search. The section on binary64 arithmetic below
  follows the operations of the code with their rounding; the round trip and the
  invariance under whole turns, which are exact equalities between computed values, are
  settled there. Both readings agree wherever no operation rounds (lemma
  \<open>ang_diff_f64_agrees\<close>).

  Python's \<open>x % 360\<close> on floats takes the sign of the divisor. In exact arithmetic
  it is \<open>x - 360 * floor (x / 360)\<close>, a value in \<open>[0, 360)\<close>. The modulus is
  the literal \<open>360\<close> at every use in the source, so there is no division by zero to
  model.
\<close>

definition mod360 :: "real \<Rightarrow> real" where
  "mod360 x = x - 360 * of_int \<lfloor>x / 360\<rfloor>"

text \<open>
  \<open>ang_diff(a, b)\<close> returns \<open>((a - b + 180) % 360) - 180\<close>. Its docstring announces the
  shortest angular difference in the interval \<open>(-180, +180]\<close>.
\<close>

definition ang_diff :: "real \<Rightarrow> real \<Rightarrow> real" where
  "ang_diff a b = mod360 (a - b + 180) - 180"

section \<open>The longitude oracle\<close>

text \<open>
  An instant is a Skyfield time, read as its Julian date. The bodies are the two whose
  longitude the program tracks; the observer is always the earth. The ecliptic longitude
  in degrees of the vector from the earth to a body comes from the ephemeris library:
  it is the parameter \<open>lon_degrees\<close>, a pure total function as the contract of the
  oracle has it. \<open>ecl_lon\<close> reduces it modulo 360.
\<close>

type_synonym instant = real

datatype body = Sun | Moon

definition ecl_lon :: "(body \<Rightarrow> instant \<Rightarrow> real) \<Rightarrow> body \<Rightarrow> instant \<Rightarrow> real" where
  "ecl_lon lon_degrees b t = mod360 (lon_degrees b t)"

text \<open>
  The three sign functions that \<open>main\<close> builds as closures over the reference values
  taken at the start of the window: the sun's longitude, the moon's longitude, and the
  reduced difference of the two.
\<close>

definition f_s :: "(body \<Rightarrow> instant \<Rightarrow> real) \<Rightarrow> real \<Rightarrow> instant \<Rightarrow> bool" where
  "f_s lon_degrees ls0 t = (ang_diff (ecl_lon lon_degrees Sun t) ls0 > 0)"

definition f_m :: "(body \<Rightarrow> instant \<Rightarrow> real) \<Rightarrow> real \<Rightarrow> instant \<Rightarrow> bool" where
  "f_m lon_degrees lm0 t = (ang_diff (ecl_lon lon_degrees Moon t) lm0 > 0)"

definition f_dm :: "(body \<Rightarrow> instant \<Rightarrow> real) \<Rightarrow> real \<Rightarrow> instant \<Rightarrow> bool" where
  "f_dm lon_degrees d0 t =
     (ang_diff (mod360 (ecl_lon lon_degrees Moon t - ecl_lon lon_degrees Sun t)) d0 > 0)"

section \<open>The event search\<close>

text \<open>
  \<open>find_events\<close> stores \<open>step_h / 24\<close> in the attribute \<open>step_days\<close> of the sign
  function and calls the almanac library's \<open>find_discrete\<close>, which reads that attribute,
  samples the sign function over the window and refines every change of sign to an
  instant. The library is a parameter of the model: it receives the window, the sign
  function and the step in days, and either raises (an exception of type \<open>'e\<close>) or
  returns the instants together with the values taken after each change. \<open>find_events\<close>
  keeps the instants and drops the values.

  The second pass is the list comprehension of the source: it keeps, in order, the
  instants at which the value function is within \<open>tol\<close> of the target.

  The model covers the calls that \<open>main\<close> makes: the sign function is a plain
  function object (a lambda), on which the attribute can be stored, the step is a number,
  and the value function returns a number at every candidate. A sign function that
  refuses attributes, or a value function that raises, would end the call before or
  during the second pass; such calls are outside the model, and the only failure in it
  is an exception of \<open>find_discrete\<close>.
\<close>

type_synonym 'e find_discrete =
  "instant \<Rightarrow> instant \<Rightarrow> (instant \<Rightarrow> bool) \<Rightarrow> real \<Rightarrow> 'e + instant list \<times> bool list"

definition find_events ::
  "'e find_discrete \<Rightarrow> (instant \<Rightarrow> bool) \<Rightarrow> (instant \<Rightarrow> real) \<Rightarrow> real
    \<Rightarrow> instant \<Rightarrow> instant \<Rightarrow> real \<Rightarrow> real \<Rightarrow> 'e + instant list" where
  "find_events find_discrete fn_sign fn_val target t0 t1 step_h tol =
     (case find_discrete t0 t1 fn_sign (step_h / 24) of
        Inl e \<Rightarrow> Inl e
      | Inr (times', ys) \<Rightarrow>
          Inr (filter (\<lambda>t. \<bar>ang_diff (fn_val t) target\<bar> < tol) times'))"

section \<open>The main program up to the three searches\<close>

text \<open>
  A parsed input time is a pandas timestamp: a wall-clock reading in nanoseconds and,
  when the text carried one, an offset from UTC. \<open>tz_localize\<close> attaches an offset to a
  timestamp that has none and keeps the wall-clock reading; \<open>main\<close> calls it only on
  such timestamps. Two timestamps that both carry an offset compare by their UTC
  readings, and after the two localisations in \<open>main\<close> both do.
\<close>

record timestamp =
  wall_ns :: int
  tzinfo :: "int option"

definition CST :: int where
  "CST = 8 * 3600 * 1000000000"

definition tz_localize :: "timestamp \<Rightarrow> int \<Rightarrow> timestamp" where
  "tz_localize x tz = x\<lparr>tzinfo := Some tz\<rparr>"

definition utc_ns :: "timestamp \<Rightarrow> int" where
  "utc_ns x = (case tzinfo x of None \<Rightarrow> wall_ns x | Some off \<Rightarrow> wall_ns x - off)"

text \<open>
  The program ends in one of two abnormal ways: by \<open>sys.exit\<close> with the message that the
  end time must be later than the start time, or by an exception of the library that
  nothing catches. Otherwise it reaches the export with the three lists of events (sun,
  moon, difference); the formatting of the rows and the writing of the spreadsheet are
  not modelled.

  \<open>from_datetime\<close> is the conversion of the timescale library from a timestamp to an
  instant. The searches run with the default step of one hour and the default tolerance
  of a hundredth of a degree.
\<close>

datatype exit_message = End_time_must_be_later

datatype 'e failure = SystemExit exit_message | Uncaught 'e

definition main ::
  "(timestamp \<Rightarrow> instant) \<Rightarrow> (body \<Rightarrow> instant \<Rightarrow> real) \<Rightarrow> 'e find_discrete
    \<Rightarrow> timestamp \<Rightarrow> timestamp
    \<Rightarrow> 'e failure + instant list \<times> instant list \<times> instant list" where
  "main from_datetime lon_degrees find_discrete start_in0 end_in0 =
     (let start_in = (if tzinfo start_in0 = None then tz_localize start_in0 CST else start_in0);
          end_in = (if tzinfo end_in0 = None then tz_localize end_in0 CST else end_in0)
      in if utc_ns start_in \<ge> utc_ns end_in then Inl (SystemExit End_time_must_be_later)
         else
           let t0 = from_datetime start_in;
               t1 = from_datetime end_in;
               ls0 = ecl_lon lon_degrees Sun t0;
               lm0 = ecl_lon lon_degrees Moon t0;
               d0 = mod360 (lm0 - ls0)
           in case find_events find_discrete (f_s lon_degrees ls0)
                     (\<lambda>t. ecl_lon lon_degrees Sun t) ls0 t0 t1 1 (1 / 100) of
                Inl e \<Rightarrow> Inl (Uncaught e)
              | Inr ev_s \<Rightarrow>
                 (case find_events find_discrete (f_m lon_degrees lm0)
                         (\<lambda>t. ecl_lon lon_degrees Moon t) lm0 t0 t1 1 (1 / 100) of
                    Inl e \<Rightarrow> Inl (Uncaught e)
                  | Inr ev_m \<Rightarrow>
                     (case find_events find_discrete (f_dm lon_degrees d0)
                             (\<lambda>t. mod360 (ecl_lon lon_degrees Moon t - ecl_lon lon_degrees Sun t))
                             d0 t0 t1 1 (1 / 100) of
                        Inl e \<Rightarrow> Inl (Uncaught e)
                      | Inr ev_dm \<Rightarrow> Inr (ev_s, ev_m, ev_dm))))"

section \<open>Sample collaborators for evaluation\<close>

text \<open>
  A sample oracle: the sun advances by one degree a day and the moon by thirteen, both
  from longitude 0 at day 0. A sample bracketing routine, which refuses an empty window
  and otherwise reports a change of sign at day 180 (the branch cut of the difference to
  the target 0) and at day 360 (the return to the target). A sample time conversion: days
  of Beijing wall-clock time.
\<close>

datatype library_error = ValueError

definition linear_lon :: "body \<Rightarrow> instant \<Rightarrow> real" where
  "linear_lon b t = (case b of Sun \<Rightarrow> t | Moon \<Rightarrow> 13 * t)"

definition sun_lon :: "instant \<Rightarrow> real" where
  "sun_lon t = ecl_lon linear_lon Sun t"

definition two_brackets :: "library_error find_discrete" where
  "two_brackets t0 t1 f step_days =
     (if t1 \<le> t0 then Inl ValueError else Inr ([180, 360], [False, True]))"

definition beijing_days :: "timestamp \<Rightarrow> instant" where
  "beijing_days x = of_int (utc_ns x + CST) / 86400000000000"

definition day :: "int \<Rightarrow> timestamp" where
  "day n = \<lparr>wall_ns = n * 86400000000000, tzinfo = None\<rparr>"

section \<open>Binary64 arithmetic\<close>

text \<open>
  A finite binary64 value is a whole number of units of \<open>2^-1074\<close>, the smallest
  positive value of the format: the model represents it by that whole number. The finite
  floats are the integers \<open>n\<close> that need at most 53 significant bits, and equality
  and order of floats are equality and order of integers (the two zeros of the format are
  not told apart, as Python's comparisons do not). Values of magnitude \<open>2^1024\<close> and
  more, infinities and NaN are not modelled: no computation below comes near them.

  \<open>dyadic m e\<close> is the float \<open>m / 2^e\<close>, for a numerator \<open>m\<close> of at most 53
  bits and \<open>e \<le> 1074\<close>, and \<open>valof\<close> is the real number a float stands for.

  \<open>round53\<close> rounds an exact result to 53 significant bits, to nearest and to even on a
  tie, which is the rounding of every binary64 operation; results below \<open>2^53\<close> units
  (the subnormal range and the first normal binade) are exact. \<open>f64_of_int k\<close> is the
  float of the integer \<open>k\<close>, as when Python adds the integer literals 180 and 360, or
  the product \<open>360*k\<close>, to a float; it is exact below \<open>2^53\<close>. \<open>fadd\<close> and
  \<open>fsub\<close> are the float addition and subtraction. \<open>fmod\<close> is the C library's remainder, which
  is exact and has the sign of the dividend. \<open>float_rem\<close> is the \<open>%\<close> of Python
  floats as CPython computes it: the C remainder, to which the divisor is added, with
  rounding, when the remainder is not zero and its sign differs from the divisor's. A zero
  divisor raises in Python; the divisor is the literal 360 at every use.

  \<open>mod360_f64\<close> is \<open>x % 360\<close> and \<open>ang_diff_f64\<close> is \<open>ang_diff\<close>, operation by
  operation: \<open>((a - b) + 180) % 360 - 180\<close>.
\<close>

type_synonym f64 = int

definition dyadic :: "int \<Rightarrow> nat \<Rightarrow> f64" where
  "dyadic m e = m * 2 ^ (1074 - e)"

definition valof :: "f64 \<Rightarrow> real" where
  "valof n = of_int n / 2 ^ 1074"

definition round_even :: "int \<Rightarrow> nat \<Rightarrow> int" where
  "round_even n k =
     (let q = n div 2 ^ k; r = n mod 2 ^ k
      in if 2 * r < 2 ^ k then q
         else if 2 * r > 2 ^ k then q + 1
         else if even q then q else q + 1)"

definition round53 :: "int \<Rightarrow> f64" where
  "round53 n = (let k = nat (bitlen \<bar>n\<bar> - 53) in round_even n k * 2 ^ k)"

definition f64_of_int :: "int \<Rightarrow> f64" where
  "f64_of_int k = round53 (k * 2 ^ 1074)"

definition fadd :: "f64 \<Rightarrow> f64 \<Rightarrow> f64" where
  "fadd x y = round53 (x + y)"

definition fsub :: "f64 \<Rightarrow> f64 \<Rightarrow> f64" where
  "fsub x y = round53 (x - y)"

definition fmod :: "f64 \<Rightarrow> f64 \<Rightarrow> f64" where
  "fmod x w = sgn x * (\<bar>x\<bar> mod \<bar>w\<bar>)"

definition float_rem :: "f64 \<Rightarrow> f64 \<Rightarrow> f64" where
  "float_rem vx wx =
     (let m = fmod vx wx
      in if m \<noteq> 0 then (if (wx < 0) \<noteq> (m < 0) then fadd m wx else m) else 0)"

definition mod360_f64 :: "f64 \<Rightarrow> f64" where
  "mod360_f64 x = float_rem x (f64_of_int 360)"

definition ang_diff_f64 :: "f64 \<Rightarrow> f64 \<Rightarrow> f64" where
  "ang_diff_f64 a b = fsub (mod360_f64 (fadd (fsub a b) (f64_of_int 180))) (f64_of_int 180)"

section \<open>Helper facts on the reduction modulo 360\<close>

lemma mod360_bounds: "0 \<le> mod360 x \<and> mod360 x < 360"
proof -
  have "of_int \<lfloor>x / 360\<rfloor> \<le> x / 360" and "x / 360 < of_int \<lfloor>x / 360\<rfloor> + 1"
    by linarith+
  then show ?thesis
    unfolding mod360_def by (simp add: field_simps)
qed

lemma mod360_unique:
  assumes "0 \<le> r" and "r < 360" and "x = r + 360 * of_int k"
  shows "mod360 x = r"
proof -
  have "\<lfloor>x / 360\<rfloor> = k"
  proof (rule floor_unique)
    show "of_int k \<le> x / 360" using assms by (simp add: field_simps)
    show "x / 360 < of_int k + 1" using assms by (simp add: field_simps)
  qed
  then show ?thesis
    unfolding mod360_def using assms(3) by simp
qed

lemma mod360_decompose: "x = mod360 x + 360 * of_int \<lfloor>x / 360\<rfloor>"
  unfolding mod360_def by simp

lemma mod360_id: "0 \<le> x \<Longrightarrow> x < 360 \<Longrightarrow> mod360 x = x"
  by (rule mod360_unique [where k = 0]) simp_all

lemma mod360_shift: "mod360 (x + 360 * of_int k) = mod360 x"
proof (rule mod360_unique [where k = "\<lfloor>x / 360\<rfloor> + k"])
  show "0 \<le> mod360 x" and "mod360 x < 360"
    using mod360_bounds [of x] by simp_all
  show "x + 360 * of_int k = mod360 x + 360 * of_int (\<lfloor>x / 360\<rfloor> + k)"
    unfolding mod360_def by (simp add: algebra_simps)
qed

lemma mod360_idem: "mod360 (mod360 x) = mod360 x"
  using mod360_bounds [of x] by (simp add: mod360_id)

lemma mod360_cong_left: "mod360 (mod360 x + y) = mod360 (x + y)"
proof -
  have "mod360 x + y = (x + y) + 360 * of_int (- \<lfloor>x / 360\<rfloor>)"
    unfolding mod360_def by simp
  then show ?thesis
    by (simp only: mod360_shift)
qed

lemma ang_diff_range: "- 180 \<le> ang_diff a b \<and> ang_diff a b < 180"
  using mod360_bounds [of "a - b + 180"] unfolding ang_diff_def by simp

lemma ang_diff_self: "ang_diff a a = 0"
  unfolding ang_diff_def by (simp add: mod360_id)

lemma ang_diff_residue: "ang_diff a b = mod360 (mod360 (a - b) + 180) - 180"
  unfolding ang_diff_def by (simp add: mod360_cong_left)

lemma ang_diff_opposite: "mod360 (a - b) = 180 \<Longrightarrow> ang_diff a b = - 180"
  by (simp add: ang_diff_residue mod360_unique [where r = 0 and k = 1])

lemma ang_diff_antisym_off_boundary:
  assumes "mod360 (a - b) \<noteq> 180"
  shows "ang_diff a b = - ang_diff b a"
proof -
  define k where "k = \<lfloor>(a - b + 180) / 360\<rfloor>"
  define r where "r = mod360 (a - b + 180)"
  have dec: "a - b + 180 = r + 360 * of_int k"
    unfolding r_def k_def by (rule mod360_decompose)
  have r_bounds: "0 \<le> r" "r < 360"
    using mod360_bounds [of "a - b + 180"] unfolding r_def by simp_all
  have "r \<noteq> 0"
  proof
    assume "r = 0"
    then have "a - b = 180 + 360 * of_int (k - 1)"
      using dec by simp
    then have "mod360 (a - b) = 180"
      by (intro mod360_unique [where k = "k - 1"]) simp_all
    with assms show False by simp
  qed
  then have "0 \<le> 360 - r" and "360 - r < 360"
    using r_bounds by simp_all
  moreover have "b - a + 180 = (360 - r) + 360 * of_int (- k)"
    using dec by simp
  ultimately have "mod360 (b - a + 180) = 360 - r"
    by (rule mod360_unique)
  then show ?thesis
    unfolding ang_diff_def r_def by simp
qed

section \<open>Helper facts on the sample collaborators\<close>

lemma sun_lon_180: "sun_lon 180 = 180"
  by (simp add: sun_lon_def ecl_lon_def linear_lon_def mod360_def)

lemma sun_lon_360: "sun_lon 360 = 0"
  by (simp add: sun_lon_def ecl_lon_def linear_lon_def mod360_def)

lemma linear_lon_360:
  "ecl_lon linear_lon Sun 360 = 0" "ecl_lon linear_lon Moon 360 = 0"
  by (simp_all add: ecl_lon_def linear_lon_def mod360_def)

lemma two_brackets_400:
  "two_brackets 0 400 f (1 / 24) = Inr ([180, 360], [False, True])"
  by (simp add: two_brackets_def)

lemma sample_search:
  "find_events two_brackets (f_s linear_lon 0) sun_lon 0 0 400 1 (1 / 100) = Inr [360]"
  by (simp add: find_events_def two_brackets_def sun_lon_180 sun_lon_360 ang_diff_def mod360_def)

text \<open>
  A run of the whole model on a valid window of 400 days: the sun and the moon return to
  their first longitude at day 360, and the difference of the two, which advances by
  twelve degrees a day, is back at its first value at both reported instants.
\<close>

lemma main_sample_run:
  "main beijing_days linear_lon two_brackets (day 0) (day 400)
     = Inr ([360], [360], [180, 360])"
  by (simp add: main_def Let_def day_def tz_localize_def utc_ns_def CST_def beijing_days_def
      find_events_def two_brackets_def ecl_lon_def linear_lon_def mod360_def ang_diff_def)

section \<open>Helper facts on binary64 arithmetic\<close>

text \<open>
  Rounding commutes with scaling by a power of two, and so does every operation above:
  a computation on floats with a common unit \<open>2^-e\<close> can be carried out on their
  numerators. Results that fit in 53 bits are exact.
\<close>

lemma round_even_dvd: "2 ^ k dvd n \<Longrightarrow> round_even n k * 2 ^ k = n"
  by (auto simp: round_even_def Let_def)

lemma round_even_scale: "round_even (n * 2 ^ j) (k + j) = round_even n k"
proof -
  have d: "(n * 2 ^ j) div 2 ^ (k + j) = n div 2 ^ k"
    by (simp add: power_add)
  have m: "(n * 2 ^ j) mod 2 ^ (k + j) = (n mod 2 ^ k) * 2 ^ j"
    by (simp add: power_add)
  have lt: "2 * ((n mod 2 ^ k) * 2 ^ j) < 2 ^ (k + j) \<longleftrightarrow> 2 * (n mod 2 ^ k) < (2::int) ^ k"
    by (simp add: power_add)
  have gt: "2 * ((n mod 2 ^ k) * 2 ^ j) > 2 ^ (k + j) \<longleftrightarrow> 2 * (n mod 2 ^ k) > (2::int) ^ k"
    by (simp add: power_add)
  show ?thesis
    unfolding round_even_def Let_def d m lt gt ..
qed

lemma round53_small: "\<bar>n\<bar> < 2 ^ 53 \<Longrightarrow> round53 n = n"
proof -
  assume "\<bar>n\<bar> < 2 ^ 53"
  then have "bitlen \<bar>n\<bar> \<le> 53"
    by (simp add: bitlen_le_iff_power)
  then have "nat (bitlen \<bar>n\<bar> - 53) = 0"
    by simp
  then show ?thesis
    unfolding round53_def Let_def by (simp add: round_even_def)
qed

lemma round53_scale: "round53 (n * 2 ^ j) = round53 n * 2 ^ j"
proof (cases "bitlen \<bar>n\<bar> \<le> 53")
  case True
  then have small: "\<bar>n\<bar> < 2 ^ 53"
    by (simp add: bitlen_le_iff_power)
  define k where "k = nat (bitlen \<bar>n * 2 ^ j\<bar> - 53)"
  have "\<bar>n * 2 ^ j\<bar> < 2 ^ 53 * 2 ^ j"
    using small by (simp add: abs_mult)
  then have "\<bar>n * 2 ^ j\<bar> < 2 ^ nat (53 + int j)"
    by (simp add: nat_add_distrib power_add)
  then have "bitlen \<bar>n * 2 ^ j\<bar> \<le> 53 + int j"
    by (simp add: bitlen_le_iff_power)
  then have "k \<le> j"
    unfolding k_def by simp
  then have "(2::int) ^ k dvd 2 ^ j"
    by (rule le_imp_power_dvd)
  then have "2 ^ k dvd n * 2 ^ j"
    by (rule dvd_mult)
  then have "round_even (n * 2 ^ j) k * 2 ^ k = n * 2 ^ j"
    by (rule round_even_dvd)
  then have "round53 (n * 2 ^ j) = n * 2 ^ j"
    unfolding round53_def Let_def k_def [symmetric] .
  with small show ?thesis
    by (simp add: round53_small)
next
  case False
  then have pos: "0 < \<bar>n\<bar>"
    by (cases "n = 0") simp_all
  define k where "k = nat (bitlen \<bar>n\<bar> - 53)"
  have "bitlen \<bar>n * 2 ^ j\<bar> = bitlen \<bar>n\<bar> + int j"
    using bitlen_pow2 [OF pos, of j] by (simp add: abs_mult)
  then have "nat (bitlen \<bar>n * 2 ^ j\<bar> - 53) = k + j"
    using False unfolding k_def by simp
  then have "round53 (n * 2 ^ j) = round_even (n * 2 ^ j) (k + j) * 2 ^ (k + j)"
    unfolding round53_def Let_def by simp
  also have "\<dots> = round_even n k * 2 ^ k * 2 ^ j"
    by (simp add: round_even_scale power_add)
  finally show ?thesis
    unfolding round53_def Let_def k_def [symmetric] .
qed

lemma fadd_scale: "fadd (a * 2 ^ j) (b * 2 ^ j) = fadd a b * 2 ^ j"
  unfolding fadd_def by (simp flip: round53_scale add: distrib_right)

lemma fsub_scale: "fsub (a * 2 ^ j) (b * 2 ^ j) = fsub a b * 2 ^ j"
  unfolding fsub_def by (simp flip: round53_scale add: left_diff_distrib)

lemma fmod_scale: "fmod (a * 2 ^ j) (w * 2 ^ j) = fmod a w * 2 ^ j"
  unfolding fmod_def by (simp add: abs_mult sgn_mult)

lemma float_rem_scale: "float_rem (a * 2 ^ j) (w * 2 ^ j) = float_rem a w * 2 ^ j"
proof -
  have neg: "x * 2 ^ j < 0 \<longleftrightarrow> x < 0" for x :: int
    by (simp add: mult_less_0_iff)
  show ?thesis
    unfolding float_rem_def Let_def fmod_scale
    by (simp add: neg fadd_scale)
qed

lemma f64_of_int_small: "\<bar>k\<bar> < 2 ^ 53 \<Longrightarrow> f64_of_int k = k * 2 ^ 1074"
  unfolding f64_of_int_def by (simp only: round53_scale round53_small)

lemma f64_of_int_dyadic:
  assumes "e \<le> 1074" and "\<bar>k\<bar> < 2 ^ 53"
  shows "f64_of_int k = dyadic (k * 2 ^ e) e"
proof -
  have "(2::int) ^ 1074 = 2 ^ e * 2 ^ (1074 - e)"
    using assms(1) by (simp flip: power_add)
  then show ?thesis
    unfolding dyadic_def by (simp add: f64_of_int_small [OF assms(2)])
qed

lemma f64_of_int_180: "e \<le> 1074 \<Longrightarrow> f64_of_int 180 = dyadic (180 * 2 ^ e) e"
  by (rule f64_of_int_dyadic) simp_all

lemma f64_of_int_360: "e \<le> 1074 \<Longrightarrow> f64_of_int 360 = dyadic (360 * 2 ^ e) e"
  by (rule f64_of_int_dyadic) simp_all

lemma fadd_dyadic: "fadd (dyadic a e) (dyadic b e) = dyadic (fadd a b) e"
  unfolding dyadic_def by (rule fadd_scale)

lemma fsub_dyadic: "fsub (dyadic a e) (dyadic b e) = dyadic (fsub a b) e"
  unfolding dyadic_def by (rule fsub_scale)

lemma mod360_f64_dyadic:
  "e \<le> 1074 \<Longrightarrow> mod360_f64 (dyadic a e) = dyadic (float_rem a (360 * 2 ^ e)) e"
  unfolding mod360_f64_def by (simp only: f64_of_int_360) (simp add: dyadic_def float_rem_scale)

lemma ang_diff_f64_dyadic:
  assumes "e \<le> 1074"
  shows "ang_diff_f64 (dyadic a e) (dyadic b e) =
         dyadic (fsub (float_rem (fadd (fsub a b) (180 * 2 ^ e)) (360 * 2 ^ e)) (180 * 2 ^ e)) e"
  unfolding ang_diff_f64_def
  by (simp only: f64_of_int_180 [OF assms] fsub_dyadic fadd_dyadic
      mod360_f64_dyadic [OF assms])

lemma dyadic_eq_iff: "dyadic a e = dyadic b e \<longleftrightarrow> a = b"
  unfolding dyadic_def by simp

lemma float_rem_exact:
  assumes "0 < W" and "W < 2 ^ 53"
  shows "float_rem X W = X mod W"
proof (cases "0 \<le> X")
  case True
  then have "fmod X W = X mod W"
    using assms(1) by (cases "X = 0") (simp_all add: fmod_def)
  moreover have "\<not> X mod W < 0"
    using assms(1) by (simp add: not_less)
  ultimately show ?thesis
    using assms(1) by (simp add: float_rem_def Let_def)
next
  case False
  define r where "r = (- X) mod W"
  have r: "0 \<le> r" "r < W"
    using assms(1) unfolding r_def by simp_all
  have m: "fmod X W = - r"
    using False assms(1) unfolding fmod_def r_def by simp
  show ?thesis
  proof (cases "r = 0")
    case True
    then have "X mod W = 0"
      unfolding r_def by (simp add: mod_eq_0_iff_dvd)
    with m True show ?thesis
      by (simp add: float_rem_def Let_def)
  next
    case nz: False
    have "X mod W = W - r"
      using nz zmod_zminus1_eq_if [of "- X" W] unfolding r_def by simp
    moreover have "fadd (- r) W = W - r"
      using r assms unfolding fadd_def by (simp add: round53_small)
    ultimately show ?thesis
      using m nz r assms(1) by (simp add: float_rem_def Let_def)
  qed
qed

lemma mod_inner_cancel: "(A + (X mod W - H)) mod W = (A + (X - H)) mod W" for A :: int
proof -
  have "(X mod W + (A - H)) mod W = (X + (A - H)) mod W"
    by (rule mod_add_left_eq)
  then show ?thesis
    by (simp add: algebra_simps)
qed

lemma ang_small:
  assumes "0 < H" and "2 * H < 2 ^ 53"
    and "\<bar>A - B\<bar> < 2 ^ 53" and "\<bar>A - B + H\<bar> < 2 ^ 53"
  shows "fsub (float_rem (fadd (fsub A B) H) (2 * H)) H = (A - B + H) mod (2 * H) - H"
proof -
  have 1: "fsub A B = A - B"
    using assms(3) by (simp add: fsub_def round53_small)
  have 2: "fadd (A - B) H = A - B + H"
    using assms(4) by (simp add: fadd_def round53_small)
  have 3: "float_rem (A - B + H) (2 * H) = (A - B + H) mod (2 * H)"
    using assms(1,2) by (intro float_rem_exact) simp_all
  have "0 \<le> (A - B + H) mod (2 * H)" and "(A - B + H) mod (2 * H) < 2 * H"
    using assms(1) by simp_all
  then have "\<bar>(A - B + H) mod (2 * H) - H\<bar> < 2 ^ 53"
    using assms(1,2) by linarith
  then have 4: "fsub ((A - B + H) mod (2 * H)) H = (A - B + H) mod (2 * H) - H"
    by (simp add: fsub_def round53_small)
  show ?thesis
    by (simp only: 1 2 3 4)
qed

lemma ang_diff_f64_grid:
  assumes "e \<le> 44" and "\<bar>A - B\<bar> + 180 * 2 ^ e < 2 ^ 53"
  shows "ang_diff_f64 (dyadic A e) (dyadic B e)
         = dyadic ((A - B + 180 * 2 ^ e) mod (360 * 2 ^ e) - 180 * 2 ^ e) e"
proof -
  have "(2::int) ^ e \<le> 2 ^ 44"
    using assms(1) by (intro power_increasing) simp_all
  then have H: "2 * (180 * (2::int) ^ e) < 2 ^ 53"
    by simp
  have pos: "0 < 180 * (2::int) ^ e"
    by simp
  have "fsub (float_rem (fadd (fsub A B) (180 * 2 ^ e)) (2 * (180 * 2 ^ e))) (180 * 2 ^ e)
        = (A - B + 180 * 2 ^ e) mod (2 * (180 * 2 ^ e)) - 180 * 2 ^ e"
    using pos H assms(2) by (intro ang_small) linarith+
  moreover have "e \<le> 1074"
    using assms(1) by simp
  ultimately show ?thesis
    by (simp add: ang_diff_f64_dyadic)
qed

lemma pow_le_44: "e \<le> 44 \<Longrightarrow> (2::int) ^ e \<le> 2 ^ 44"
  by (intro power_increasing) simp_all

text \<open>
  Where no operation rounds, the binary64 computation and the exact reading give the same
  angle.
\<close>

lemma of_int_scaled:
  assumes "e \<le> N"
  shows "real_of_int (m * 2 ^ (N - e)) / 2 ^ N = of_int m / 2 ^ e"
proof -
  obtain d where N: "N = d + e"
    using assms by (metis le_add_diff_inverse2)
  show ?thesis
    unfolding N by (simp add: power_add)
qed

lemma valof_dyadic: "e \<le> 1074 \<Longrightarrow> valof (dyadic m e) = of_int m / 2 ^ e"
  unfolding valof_def dyadic_def by (rule of_int_scaled)

lemma mod360_of_dyadic:
  "mod360 (of_int X / 2 ^ e) = of_int (X mod (360 * 2 ^ e)) / 2 ^ e"
proof -
  define W :: int where "W = 360 * 2 ^ e"
  have Wr: "real_of_int W = 360 * 2 ^ e"
    unfolding W_def by simp
  have pos: "0 < W"
    unfolding W_def by simp
  have "X mod W < W"
    using pos by simp
  then have "real_of_int (X mod W) < real_of_int W"
    by (simp only: of_int_less_iff)
  then have up: "real_of_int (X mod W) / 2 ^ e < 360"
    unfolding Wr by (simp add: field_simps)
  have "0 \<le> X mod W"
    using pos by simp
  then have lo: "0 \<le> real_of_int (X mod W) / 2 ^ e"
    by simp
  have "real_of_int X = real_of_int (X mod W + W * (X div W))"
    by simp
  also have "\<dots> = real_of_int (X mod W) + real_of_int W * real_of_int (X div W)"
    by (simp only: of_int_add of_int_mult)
  finally have "real_of_int X / 2 ^ e
      = real_of_int (X mod W) / 2 ^ e + 360 * real_of_int (X div W)"
    unfolding Wr by (simp add: field_simps)
  with lo up have "mod360 (real_of_int X / 2 ^ e) = real_of_int (X mod W) / 2 ^ e"
    by (rule mod360_unique)
  then show ?thesis
    unfolding W_def .
qed

lemma ang_diff_f64_agrees:
  assumes "e \<le> 44" and "\<bar>A - B\<bar> + 180 * 2 ^ e < 2 ^ 53"
  shows "valof (ang_diff_f64 (dyadic A e) (dyadic B e))
         = ang_diff (valof (dyadic A e)) (valof (dyadic B e))"
proof -
  have e: "e \<le> 1074"
    using assms(1) by simp
  define X where "X = A - B + 180 * 2 ^ e"
  define R where "R = X mod (360 * 2 ^ e)"
  have "real_of_int X = of_int A - of_int B + 180 * 2 ^ e"
    unfolding X_def by simp
  then have "of_int A / 2 ^ e - of_int B / 2 ^ e + (180::real) = of_int X / 2 ^ e"
    by (simp add: field_simps)
  then have "ang_diff (of_int A / 2 ^ e) (of_int B / 2 ^ e) = of_int R / 2 ^ e - 180"
    unfolding ang_diff_def R_def by (simp only: mod360_of_dyadic)
  moreover have "real_of_int (R - 180 * 2 ^ e) / 2 ^ e = of_int R / 2 ^ e - 180"
    by (simp add: field_simps)
  moreover have "ang_diff_f64 (dyadic A e) (dyadic B e) = dyadic (R - 180 * 2 ^ e) e"
    unfolding R_def X_def using assms by (rule ang_diff_f64_grid)
  ultimately show ?thesis
    by (simp only: valof_dyadic [OF e])
qed

text \<open>
  Values of the binary64 computation. Where rounding shows: the reduction of
  \<open>-2^-70\<close> gives \<open>360.0\<close>, outside \<open>[0, 360)\<close>; the difference of 0 to the
  float next above 180 gives \<open>180.0\<close>; the difference of \<open>10^17\<close> to 0 gives
  \<open>-84.0\<close>, where the exact value is \<open>-80\<close>; the round trip from the float
  nearest 0.1 to the float nearest 0.3 returns a float \<open>410 * 2^-55\<close> below the
  latter. At the opposite angles 180 and 0 nothing rounds, and the result is
  \<open>-180.0\<close>. The last three lemmas are the computations, on numerators, behind the
  two failures of exactness shown further down.
\<close>

lemma mod360_f64_rounds_up_to_360: "mod360_f64 (dyadic (- 1) 70) = f64_of_int 360"
proof -
  have "float_rem (- 1) (360 * 2 ^ 70) = 360 * 2 ^ 70"
    by code_simp
  then have "mod360_f64 (dyadic (- 1) 70) = dyadic (360 * 2 ^ 70) 70"
    by (simp only: mod360_f64_dyadic)
  then show ?thesis
    by (simp add: f64_of_int_small dyadic_def)
qed

lemma ang_diff_f64_reaches_180:
  "ang_diff_f64 (f64_of_int 0) (dyadic (180 * 2 ^ 45 + 1) 45) = f64_of_int 180"
proof -
  have "fsub (float_rem (fadd (fsub 0 (180 * 2 ^ 45 + 1)) (180 * 2 ^ 45)) (360 * 2 ^ 45))
          (180 * 2 ^ 45) = 180 * 2 ^ 45"
    by code_simp
  then have "ang_diff_f64 (dyadic 0 45) (dyadic (180 * 2 ^ 45 + 1) 45) = dyadic (180 * 2 ^ 45) 45"
    by (simp only: ang_diff_f64_dyadic)
  then show ?thesis
    by (simp add: f64_of_int_small dyadic_def)
qed

lemma ang_diff_f64_180_0: "ang_diff_f64 (f64_of_int 180) (f64_of_int 0) = f64_of_int (- 180)"
proof -
  have "ang_diff_f64 (dyadic 180 0) (dyadic 0 0) = dyadic (- 180) 0"
    by (subst ang_diff_f64_grid) simp_all
  then show ?thesis
    by (simp add: f64_of_int_small dyadic_def)
qed

lemma ang_diff_f64_large:
  "ang_diff_f64 (f64_of_int 100000000000000000) (f64_of_int 0) = f64_of_int (- 84)"
proof -
  have r: "round53 100000000000000000 = 100000000000000000"
    by code_simp
  have big: "f64_of_int 100000000000000000 = dyadic 100000000000000000 0"
    unfolding f64_of_int_def dyadic_def by (simp only: round53_scale r) simp
  have "fsub (float_rem (fadd (fsub 100000000000000000 0) (180 * 2 ^ 0)) (360 * 2 ^ 0))
          (180 * 2 ^ 0) = - 84"
    by code_simp
  then have "ang_diff_f64 (dyadic 100000000000000000 0) (dyadic 0 0) = dyadic (- 84) 0"
    by (simp only: ang_diff_f64_dyadic)
  then show ?thesis
    unfolding big by (simp add: f64_of_int_small dyadic_def)
qed

lemma round_trip_f64_tenths:
  "mod360_f64 (fadd (dyadic 3602879701896397 55)
      (ang_diff_f64 (dyadic 10808639105689190 55) (dyadic 3602879701896397 55)))
   = dyadic 10808639105688780 55"
proof -
  have "float_rem (fadd 3602879701896397
          (fsub (float_rem (fadd (fsub 10808639105689190 3602879701896397) (180 * 2 ^ 55))
             (360 * 2 ^ 55)) (180 * 2 ^ 55))) (360 * 2 ^ 55) = 10808639105688780"
    by code_simp
  then show ?thesis
    by (simp only: ang_diff_f64_dyadic fadd_dyadic mod360_f64_dyadic)
qed

lemma round_trip_numerators_60:
  "float_rem (fadd 1 (fsub (float_rem (fadd (fsub 0 1) (180 * 2 ^ 60)) (360 * 2 ^ 60))
      (180 * 2 ^ 60))) (360 * 2 ^ 60) = 1"
  by code_simp

lemma shifted_numerators_44:
  "fsub (float_rem (fadd (fsub (fadd 1 (360 * 2 ^ 44)) 0) (180 * 2 ^ 44)) (360 * 2 ^ 44))
     (180 * 2 ^ 44) = 0"
  by code_simp

lemma plain_numerators_44:
  "fsub (float_rem (fadd (fsub 1 0) (180 * 2 ^ 44)) (360 * 2 ^ 44)) (180 * 2 ^ 44) = 1"
  by code_simp

section \<open>Properties of the angular difference\<close>

text \<open>
  C2. The specification states that for all real angles \<open>a\<close> and \<open>b\<close> the value of
  \<open>ang_diff\<close> lies in \<open>(-180, +180]\<close>, and that for diametrically opposite
  angles it is \<open>+180\<close>. The code reduces \<open>a - b + 180\<close> modulo 360 and subtracts
  180: for the opposite angles 180 and 0 it returns \<open>-180\<close>, which the interval of its
  docstring excludes. No operation rounds at this input, and the binary64 computation
  gives the same (lemma \<open>ang_diff_f64_180_0\<close>). In exact arithmetic the values lie in
  \<open>[-180, +180)\<close> (lemma \<open>ang_diff_range\<close>).
\<close>

theorem ang_diff_180_0: "ang_diff 180 0 = - 180"
  by (simp add: ang_diff_def mod360_def)

text \<open>
  In exact arithmetic the round trip holds: for angles \<open>a\<close> and \<open>b\<close> in
  \<open>[0, 360)\<close>, adding to \<open>a\<close> the difference \<open>ang_diff b a\<close> and reducing
  modulo 360 gives \<open>b\<close> back.
\<close>

lemma ang_diff_round_trip:
  assumes "0 \<le> a" and "a < 360" and "0 \<le> b" and "b < 360"
  shows "mod360 (a + ang_diff b a) = b"
proof -
  have "a + ang_diff b a = b + 360 * of_int (- \<lfloor>(b - a + 180) / 360\<rfloor>)"
    unfolding ang_diff_def mod360_def by simp
  with assms(3,4) show ?thesis
    by (intro mod360_unique [where k = "- \<lfloor>(b - a + 180) / 360\<rfloor>"]) simp_all
qed

text \<open>
  C3. The specification states the round trip as an equality of computed values, for all
  normalized angles. On binary64 it fails: for \<open>a = 2^-60\<close> and \<open>b = 0\<close> the sum
  \<open>(b - a) + 180\<close> rounds to 180, the difference comes out as 0, and the round trip
  returns \<open>a\<close>, not \<open>b\<close>.
\<close>

theorem round_trip_f64_fails:
  "mod360_f64 (fadd (dyadic 1 60) (ang_diff_f64 (f64_of_int 0) (dyadic 1 60))) = dyadic 1 60
   \<and> dyadic 1 60 \<noteq> f64_of_int 0"
proof -
  have z: "f64_of_int 0 = dyadic 0 60"
    by (simp add: f64_of_int_small dyadic_def)
  have "mod360_f64 (fadd (dyadic 1 60) (ang_diff_f64 (dyadic 0 60) (dyadic 1 60))) = dyadic 1 60"
    by (simp only: ang_diff_f64_dyadic fadd_dyadic mod360_f64_dyadic round_trip_numerators_60)
  then show ?thesis
    by (simp add: z dyadic_def)
qed

text \<open>
  C3, as the code has it. For all normalized angles \<open>a\<close> and \<open>b\<close> in \<open>[0, 360)\<close>
  that are whole multiples of \<open>2^-43\<close> degree, every operation of the computation is
  exact and the round trip returns \<open>b\<close>: \<open>(a + ang_diff(b, a)) % 360 == b\<close>.
\<close>

theorem round_trip_f64_exact:
  assumes "0 \<le> A" and "A < 360 * 2 ^ 43" and "0 \<le> B" and "B < 360 * 2 ^ 43"
  shows "mod360_f64 (fadd (dyadic A 43) (ang_diff_f64 (dyadic B 43) (dyadic A 43))) = dyadic B 43"
proof -
  define D where "D = (B - A + 180 * 2 ^ 43) mod (360 * 2 ^ 43) - 180 * 2 ^ 43"
  have d: "ang_diff_f64 (dyadic B 43) (dyadic A 43) = dyadic D 43"
    unfolding D_def using assms by (intro ang_diff_f64_grid) simp_all
  have "0 \<le> (B - A + 180 * 2 ^ 43) mod (360 * 2 ^ 43)"
    and "(B - A + 180 * 2 ^ 43) mod (360 * 2 ^ 43) < 360 * 2 ^ 43"
    by simp_all
  then have "\<bar>A + D\<bar> < 2 ^ 53"
    unfolding D_def using assms by simp
  then have s: "fadd A D = A + D"
    by (simp add: fadd_def round53_small)
  have "(A + D) mod (360 * 2 ^ 43) = B mod (360 * 2 ^ 43)"
    unfolding D_def by (simp only: mod_inner_cancel) simp
  also have "\<dots> = B"
    using assms(3,4) by simp
  finally have "float_rem (A + D) (360 * 2 ^ 43) = B"
    by (subst float_rem_exact) simp_all
  then show ?thesis
    by (simp add: d fadd_dyadic s mod360_f64_dyadic)
qed

theorem round_trip_f64_exact_witness:
  "(0::int) \<le> 719 * 2 ^ 42 \<and> (719 * 2 ^ 42 :: int) < 360 * 2 ^ 43
   \<and> (0::int) \<le> 2 ^ 41 \<and> (2 ^ 41 :: int) < 360 * 2 ^ 43
   \<and> mod360_f64 (fadd (dyadic (719 * 2 ^ 42) 43)
         (ang_diff_f64 (dyadic (2 ^ 41) 43) (dyadic (719 * 2 ^ 42) 43))) = dyadic (2 ^ 41) 43"
proof -
  have h: "(0::int) \<le> 719 * 2 ^ 42" "(719 * 2 ^ 42 :: int) < 360 * 2 ^ 43"
    "(0::int) \<le> 2 ^ 41" "(2 ^ 41 :: int) < 360 * 2 ^ 43"
    by simp_all
  show ?thesis
    using h round_trip_f64_exact [OF h] by (intro conjI)
qed

text \<open>
  C4. The specification states that \<open>ang_diff a b = - ang_diff b a\<close> except where
  \<open>a - b\<close> is congruent to 180 modulo 360, and that there the result is \<open>+180\<close> by
  convention. On the boundary the code returns \<open>-180\<close> for both orders of the
  arguments, here at the angles 0 and 180, where no operation rounds. In exact arithmetic
  that is so on the whole boundary (lemma \<open>ang_diff_opposite\<close>), and off the boundary
  the antisymmetry holds (lemma \<open>ang_diff_antisym_off_boundary\<close>).
\<close>

theorem ang_diff_boundary_both_orders:
  "ang_diff 0 180 = - 180 \<and> ang_diff 180 0 = ang_diff 0 180"
  by (simp add: ang_diff_def mod360_def)

text \<open>
  In exact arithmetic \<open>ang_diff\<close> is well defined on the circle: adding a whole number of
  turns to either argument, or reducing either argument modulo 360 beforehand, does not
  change the result, which is a function of the residue of \<open>a - b\<close> modulo 360 alone.
\<close>

lemma ang_diff_periodic:
  "ang_diff (a + 360 * of_int k) b = ang_diff a b
   \<and> ang_diff a (b + 360 * of_int k) = ang_diff a b
   \<and> ang_diff (mod360 a) b = ang_diff a b
   \<and> ang_diff a (mod360 b) = ang_diff a b
   \<and> ang_diff a b = mod360 (mod360 (a - b) + 180) - 180"
proof -
  have "a + 360 * of_int k - b + 180 = (a - b + 180) + 360 * of_int k"
    by simp
  then have 1: "ang_diff (a + 360 * of_int k) b = ang_diff a b"
    unfolding ang_diff_def by (simp only: mod360_shift)
  have "a - (b + 360 * of_int k) + 180 = (a - b + 180) + 360 * of_int (- k)"
    by simp
  then have 2: "ang_diff a (b + 360 * of_int k) = ang_diff a b"
    unfolding ang_diff_def by (simp only: mod360_shift)
  have "mod360 a - b + 180 = mod360 a + (180 - b)" and "a - b + 180 = a + (180 - b)"
    by simp_all
  then have 3: "ang_diff (mod360 a) b = ang_diff a b"
    unfolding ang_diff_def by (simp only: mod360_cong_left)
  have "a - mod360 b + 180 = (a - b + 180) + 360 * of_int \<lfloor>b / 360\<rfloor>"
    unfolding mod360_def by simp
  then have 4: "ang_diff a (mod360 b) = ang_diff a b"
    unfolding ang_diff_def by (simp only: mod360_shift)
  from 1 2 3 4 ang_diff_residue [of a b] show ?thesis
    by blast
qed

text \<open>
  C10. The specification states these invariances as equalities of computed values, for
  all angles and all integers \<open>k\<close>. On binary64 they fail: \<open>2^-44\<close> and
  \<open>2^-44 + 360\<close> are both floats, but \<open>ang_diff\<close> of the second and 0 is 0 (the sum
  with 180 is a tie and rounds to 540), while \<open>ang_diff\<close> of the first and 0 is
  \<open>2^-44\<close>.
\<close>

theorem ang_diff_f64_shift_fails:
  "ang_diff_f64 (fadd (dyadic 1 44) (f64_of_int (360 * 1))) (f64_of_int 0) = f64_of_int 0
   \<and> ang_diff_f64 (dyadic 1 44) (f64_of_int 0) = dyadic 1 44
   \<and> dyadic 1 44 \<noteq> f64_of_int 0"
proof -
  have z: "f64_of_int 0 = dyadic 0 44" and t: "f64_of_int (360 * 1) = dyadic (360 * 2 ^ 44) 44"
    by (simp_all add: f64_of_int_small dyadic_def)
  have "ang_diff_f64 (fadd (dyadic 1 44) (dyadic (360 * 2 ^ 44) 44)) (dyadic 0 44) = dyadic 0 44"
    by (simp only: ang_diff_f64_dyadic fadd_dyadic shifted_numerators_44)
  moreover have "ang_diff_f64 (dyadic 1 44) (dyadic 0 44) = dyadic 1 44"
    by (simp only: ang_diff_f64_dyadic plain_numerators_44)
  moreover have "dyadic 1 44 \<noteq> dyadic 0 44"
    by (simp add: dyadic_eq_iff)
  ultimately show ?thesis
    unfolding z t by (intro conjI)
qed

text \<open>
  C10, as the code has it. Let \<open>a = A / 2^e\<close> and \<open>b = B / 2^e\<close> with \<open>e \<le> 44\<close>,
  and let \<open>k\<close> be an integer, such that
  \<open>|A| + |B| + 360 * 2^e * (|k| + 1) + 180 * 2^e < 2^53\<close>. Then every operation is exact,
  and \<open>ang_diff(a + 360*k, b)\<close>, \<open>ang_diff(a, b + 360*k)\<close>,
  \<open>ang_diff(a % 360, b)\<close> and \<open>ang_diff(a, b % 360)\<close> all equal \<open>ang_diff(a, b)\<close>,
  which is also the result of the same computation on \<open>(a - b) % 360\<close> in place of
  \<open>a - b\<close>.
\<close>

theorem ang_diff_f64_periodic_exact:
  assumes "e \<le> 44"
    and "\<bar>A\<bar> + \<bar>B\<bar> + 360 * 2 ^ e * (\<bar>k\<bar> + 1) + 180 * 2 ^ e < 2 ^ 53"
  shows "ang_diff_f64 (fadd (dyadic A e) (f64_of_int (360 * k))) (dyadic B e)
           = ang_diff_f64 (dyadic A e) (dyadic B e)
       \<and> ang_diff_f64 (dyadic A e) (fadd (dyadic B e) (f64_of_int (360 * k)))
           = ang_diff_f64 (dyadic A e) (dyadic B e)
       \<and> ang_diff_f64 (mod360_f64 (dyadic A e)) (dyadic B e)
           = ang_diff_f64 (dyadic A e) (dyadic B e)
       \<and> ang_diff_f64 (dyadic A e) (mod360_f64 (dyadic B e))
           = ang_diff_f64 (dyadic A e) (dyadic B e)
       \<and> fsub (mod360_f64 (fadd (mod360_f64 (fsub (dyadic A e) (dyadic B e))) (f64_of_int 180)))
             (f64_of_int 180)
           = ang_diff_f64 (dyadic A e) (dyadic B e)"
proof -
  define W :: int where "W = 360 * 2 ^ e"
  define H :: int where "H = 180 * 2 ^ e"
  have e: "e \<le> 1074"
    using assms(1) by simp
  have W: "0 < W" "W < 2 ^ 53" "W = 2 * H"
    using pow_le_44 [OF assms(1)] unfolding W_def H_def by simp_all
  have bound: "\<bar>A\<bar> + \<bar>B\<bar> + W * (\<bar>k\<bar> + 1) + H < 2 ^ 53"
    using assms(2) unfolding W_def H_def .
  have Hpos: "0 < H"
    unfolding H_def by simp
  define P where "P = W * k"
  have "\<bar>P\<bar> = W * \<bar>k\<bar>"
    unfolding P_def using W(1) by (simp add: abs_mult)
  moreover have "W * (\<bar>k\<bar> + 1) = W * \<bar>k\<bar> + W"
    by (simp add: algebra_simps)
  ultimately have bound: "\<bar>A\<bar> + \<bar>B\<bar> + \<bar>P\<bar> + W + H < 2 ^ 53"
    using bound by simp
  have amod: "0 \<le> A mod W" "A mod W < W" and bmod: "0 \<le> B mod W" "B mod W < W"
    using W(1) by simp_all
  have base: "\<bar>X - Y\<bar> + H < 2 ^ 53 \<Longrightarrow>
      ang_diff_f64 (dyadic X e) (dyadic Y e) = dyadic ((X - Y + H) mod W - H) e" for X Y
    unfolding W_def H_def using assms(1) by (rule ang_diff_f64_grid)
  have shift: "f64_of_int (360 * k) = dyadic (W * k) e"
  proof -
    have "360 * \<bar>k\<bar> \<le> W * \<bar>k\<bar>"
      unfolding W_def by (intro mult_right_mono) simp_all
    then have "\<bar>360 * k\<bar> < 2 ^ 53"
      using bound Hpos W(1) unfolding P_def by (simp add: abs_mult)
    then show ?thesis
      unfolding W_def using f64_of_int_dyadic [OF e, of "360 * k"] by (simp add: mult_ac)
  qed
  have addA: "fadd (dyadic A e) (f64_of_int (360 * k)) = dyadic (A + W * k) e"
  proof -
    have "\<bar>A + W * k\<bar> < 2 ^ 53"
      using bound W(1) Hpos unfolding P_def by linarith
    then have "fadd A (W * k) = A + W * k"
      by (simp add: fadd_def round53_small)
    then show ?thesis
      by (simp only: shift fadd_dyadic)
  qed
  have addB: "fadd (dyadic B e) (f64_of_int (360 * k)) = dyadic (B + W * k) e"
  proof -
    have "\<bar>B + W * k\<bar> < 2 ^ 53"
      using bound W(1) Hpos unfolding P_def by linarith
    then have "fadd B (W * k) = B + W * k"
      by (simp add: fadd_def round53_small)
    then show ?thesis
      by (simp only: shift fadd_dyadic)
  qed
  have modA: "mod360_f64 (dyadic A e) = dyadic (A mod W) e"
    using W(1,2) unfolding W_def by (simp add: mod360_f64_dyadic [OF e] float_rem_exact)
  have modB: "mod360_f64 (dyadic B e) = dyadic (B mod W) e"
    using W(1,2) unfolding W_def by (simp add: mod360_f64_dyadic [OF e] float_rem_exact)
  have ref: "ang_diff_f64 (dyadic A e) (dyadic B e) = dyadic ((A - B + H) mod W - H) e"
    using bound W(1) Hpos by (intro base) linarith
  have 1: "ang_diff_f64 (dyadic (A + W * k) e) (dyadic B e) = dyadic ((A - B + H) mod W - H) e"
  proof -
    have "ang_diff_f64 (dyadic (A + W * k) e) (dyadic B e)
            = dyadic ((A + W * k - B + H) mod W - H) e"
      using bound W(1) Hpos unfolding P_def [symmetric] by (intro base) linarith
    moreover have "A + W * k - B + H = (A - B + H) + k * W"
      by (simp add: algebra_simps)
    ultimately show ?thesis
      by (simp only: mod_mult_self1)
  qed
  have 2: "ang_diff_f64 (dyadic A e) (dyadic (B + W * k) e) = dyadic ((A - B + H) mod W - H) e"
  proof -
    have "ang_diff_f64 (dyadic A e) (dyadic (B + W * k) e)
            = dyadic ((A - (B + W * k) + H) mod W - H) e"
      using bound W(1) Hpos unfolding P_def [symmetric] by (intro base) linarith
    moreover have "A - (B + W * k) + H = (A - B + H) + (- k) * W"
      by (simp add: algebra_simps)
    ultimately show ?thesis
      by (simp only: mod_mult_self1)
  qed
  have 3: "ang_diff_f64 (dyadic (A mod W) e) (dyadic B e) = dyadic ((A - B + H) mod W - H) e"
  proof -
    have "ang_diff_f64 (dyadic (A mod W) e) (dyadic B e)
            = dyadic ((A mod W - B + H) mod W - H) e"
      using bound W(1) Hpos amod by (intro base) linarith
    moreover have "(A mod W - B + H) mod W = (A - B + H) mod W"
    proof -
      have "(A mod W + (H - B)) mod W = (A + (H - B)) mod W"
        by (rule mod_add_left_eq)
      then show ?thesis
        by (simp add: algebra_simps)
    qed
    ultimately show ?thesis
      by simp
  qed
  have 4: "ang_diff_f64 (dyadic A e) (dyadic (B mod W) e) = dyadic ((A - B + H) mod W - H) e"
  proof -
    have "ang_diff_f64 (dyadic A e) (dyadic (B mod W) e)
            = dyadic ((A - B mod W + H) mod W - H) e"
      using bound W(1) Hpos bmod by (intro base) linarith
    moreover have "(A - B mod W + H) mod W = (A - B + H) mod W"
    proof -
      have "(A + H - B mod W) mod W = (A + H - B) mod W"
        by (rule mod_diff_right_eq)
      then show ?thesis
        by (simp add: algebra_simps)
    qed
    ultimately show ?thesis
      by simp
  qed
  have 5: "fsub (mod360_f64 (fadd (mod360_f64 (fsub (dyadic A e) (dyadic B e))) (f64_of_int 180)))
             (f64_of_int 180) = dyadic ((A - B + H) mod W - H) e"
  proof -
    define R where "R = (A - B) mod W"
    have R: "0 \<le> R" "R < W"
      unfolding R_def using W(1) by simp_all
    have "\<bar>A - B\<bar> < 2 ^ 53"
      using bound Hpos W(1) by linarith
    then have a: "fsub A B = A - B"
      by (simp add: fsub_def round53_small)
    have b: "float_rem (A - B) W = R"
      unfolding R_def using W(1,2) by (rule float_rem_exact)
    have "\<bar>R + H\<bar> < 2 ^ 53"
      using R bound Hpos by linarith
    then have c: "fadd R H = R + H"
      by (simp add: fadd_def round53_small)
    have d: "float_rem (R + H) W = (A - B + H) mod W"
      unfolding R_def using W(1,2) by (simp add: float_rem_exact mod_add_left_eq)
    have "0 \<le> (A - B + H) mod W" and "(A - B + H) mod W < W"
      using W(1) by simp_all
    then have "\<bar>(A - B + H) mod W - H\<bar> < 2 ^ 53"
      using bound Hpos by linarith
    then have f: "fsub ((A - B + H) mod W) H = (A - B + H) mod W - H"
      by (simp add: fsub_def round53_small)
    have h180: "f64_of_int 180 = dyadic H e"
      unfolding H_def using e by (rule f64_of_int_180)
    have w360: "360 * 2 ^ e = W"
      unfolding W_def ..
    show ?thesis
      by (simp only: h180 fsub_dyadic fadd_dyadic mod360_f64_dyadic [OF e] w360 a b c d f)
  qed
  show ?thesis
    by (simp only: addA addB modA modB 1 2 3 4 5 ref)
qed

theorem ang_diff_f64_periodic_exact_witness:
  "(1::nat) \<le> 44
   \<and> \<bar>721\<bar> + \<bar>20\<bar> + 360 * 2 ^ 1 * (\<bar>- 2\<bar> + 1) + 180 * 2 ^ 1 < (2::int) ^ 53
   \<and> ang_diff_f64 (fadd (dyadic 721 1) (f64_of_int (360 * - 2))) (dyadic 20 1)
        = ang_diff_f64 (dyadic 721 1) (dyadic 20 1)
   \<and> ang_diff_f64 (dyadic 721 1) (mod360_f64 (dyadic 20 1))
        = ang_diff_f64 (dyadic 721 1) (dyadic 20 1)
   \<and> ang_diff_f64 (dyadic 721 1) (dyadic 20 1) = dyadic (- 19) 1"
proof -
  have h: "(1::nat) \<le> 44"
    "\<bar>721\<bar> + \<bar>20\<bar> + 360 * 2 ^ 1 * (\<bar>- 2\<bar> + 1) + 180 * 2 ^ 1 < (2::int) ^ 53"
    by simp_all
  have v: "ang_diff_f64 (dyadic 721 1) (dyadic 20 1) = dyadic (- 19) 1"
    by (subst ang_diff_f64_grid) simp_all
  show ?thesis
    using h v ang_diff_f64_periodic_exact [OF h] by (intro conjI) simp_all
qed

section \<open>Properties of the sign functions\<close>

text \<open>
  C5. Each of the three sign functions is true exactly when the difference it tracks is
  strictly positive, hence false exactly when that difference is at most zero. A
  difference of exactly zero falls on the false side for all three, and so does an
  instant at which the tracked value equals its reference value.
\<close>

theorem sign_fn_convention:
  "(f_s lon ls0 t \<longleftrightarrow> 0 < ang_diff (ecl_lon lon Sun t) ls0)
   \<and> (f_m lon lm0 t \<longleftrightarrow> 0 < ang_diff (ecl_lon lon Moon t) lm0)
   \<and> (f_dm lon d0 t \<longleftrightarrow> 0 < ang_diff (mod360 (ecl_lon lon Moon t - ecl_lon lon Sun t)) d0)
   \<and> (\<not> f_s lon ls0 t \<longleftrightarrow> ang_diff (ecl_lon lon Sun t) ls0 \<le> 0)
   \<and> (\<not> f_m lon lm0 t \<longleftrightarrow> ang_diff (ecl_lon lon Moon t) lm0 \<le> 0)
   \<and> (\<not> f_dm lon d0 t
        \<longleftrightarrow> ang_diff (mod360 (ecl_lon lon Moon t - ecl_lon lon Sun t)) d0 \<le> 0)
   \<and> (ang_diff (ecl_lon lon Sun t) ls0 = 0 \<longrightarrow> \<not> f_s lon ls0 t)
   \<and> (ang_diff (ecl_lon lon Moon t) lm0 = 0 \<longrightarrow> \<not> f_m lon lm0 t)
   \<and> (ang_diff (mod360 (ecl_lon lon Moon t - ecl_lon lon Sun t)) d0 = 0
        \<longrightarrow> \<not> f_dm lon d0 t)
   \<and> (ecl_lon lon Sun t = ls0 \<longrightarrow> \<not> f_s lon ls0 t)
   \<and> (ecl_lon lon Moon t = lm0 \<longrightarrow> \<not> f_m lon lm0 t)
   \<and> (mod360 (ecl_lon lon Moon t - ecl_lon lon Sun t) = d0 \<longrightarrow> \<not> f_dm lon d0 t)"
  by (auto simp: f_s_def f_m_def f_dm_def ang_diff_self)

theorem sign_fn_convention_witness:
  "ang_diff (ecl_lon linear_lon Sun 360) 0 = 0 \<and> \<not> f_s linear_lon 0 360
   \<and> ang_diff (ecl_lon linear_lon Moon 360) 0 = 0 \<and> \<not> f_m linear_lon 0 360
   \<and> ang_diff (mod360 (ecl_lon linear_lon Moon 360 - ecl_lon linear_lon Sun 360)) 0 = 0
   \<and> \<not> f_dm linear_lon 0 360"
proof -
  have s: "ang_diff (ecl_lon linear_lon Sun 360) 0 = 0"
    and m: "ang_diff (ecl_lon linear_lon Moon 360) 0 = 0"
    and d: "ang_diff (mod360 (ecl_lon linear_lon Moon 360 - ecl_lon linear_lon Sun 360)) 0 = 0"
    by (simp_all add: linear_lon_360 mod360_id ang_diff_self)
  show ?thesis
    using s m d sign_fn_convention [of linear_lon 0 360 0 0] by simp
qed

section \<open>Properties of the event search\<close>

text \<open>
  C1. Whenever \<open>find_events\<close> returns, every instant of the returned list has its
  re-evaluated value strictly within the tolerance of the target:
  \<open>|ang_diff (fn_val t) target| < tol\<close>.
\<close>

theorem find_events_within_tol:
  assumes "find_events find_discrete fn_sign fn_val target t0 t1 step_h tol = Inr evs"
  shows "\<forall>t\<in>set evs. \<bar>ang_diff (fn_val t) target\<bar> < tol"
  using assms by (auto simp: find_events_def split: sum.splits prod.splits)

theorem find_events_within_tol_witness:
  "find_events two_brackets (f_s linear_lon 0) sun_lon 0 0 400 1 (1 / 100) = Inr [360]
   \<and> \<bar>ang_diff (sun_lon 360) 0\<bar> < 1 / 100"
proof -
  have h: "find_events two_brackets (f_s linear_lon 0) sun_lon 0 0 400 1 (1 / 100) = Inr [360]"
    by (rule sample_search)
  show ?thesis
    using h find_events_within_tol [OF h] by simp
qed

text \<open>
  C6. Candidates that fail the tolerance test are left out without any error: when the
  bracketing routine returns its candidates, \<open>find_events\<close> returns a list as well, and
  that list is the candidates that pass the test, in their order. It is a subsequence of
  the candidates, and a candidate is in it exactly when it passes.
\<close>

theorem find_events_filters_silently:
  assumes "find_discrete t0 t1 fn_sign (step_h / 24) = Inr (cands, ys)"
  shows "\<exists>evs. find_events find_discrete fn_sign fn_val target t0 t1 step_h tol = Inr evs
           \<and> evs = filter (\<lambda>t. \<bar>ang_diff (fn_val t) target\<bar> < tol) cands
           \<and> subseq evs cands
           \<and> (\<forall>t\<in>set cands. t \<in> set evs \<longleftrightarrow> \<bar>ang_diff (fn_val t) target\<bar> < tol)"
  using assms by (simp add: find_events_def)

theorem find_events_filters_silently_witness:
  "two_brackets 0 400 (f_s linear_lon 0) (1 / 24) = Inr ([180, 360], [False, True])
   \<and> find_events two_brackets (f_s linear_lon 0) sun_lon 0 0 400 1 (1 / 100) = Inr [360]
   \<and> subseq [360] [180, 360 :: real]
   \<and> \<not> \<bar>ang_diff (sun_lon 180) 0\<bar> < 1 / 100"
proof -
  have h: "two_brackets 0 400 (f_s linear_lon 0) (1 / 24) = Inr ([180, 360], [False, True])"
    by (rule two_brackets_400)
  have v: "\<not> \<bar>ang_diff (sun_lon 180) 0\<bar> < 1 / 100" "\<bar>ang_diff (sun_lon 360) 0\<bar> < 1 / 100"
    by (simp_all add: sun_lon_180 sun_lon_360 ang_diff_def mod360_def)
  show ?thesis
    using h v
      find_events_filters_silently [of two_brackets 0 400 "f_s linear_lon 0" 1
        "[180, 360]" "[False, True]" sun_lon 0 "1 / 100"]
    by auto
qed

text \<open>
  C8. The specification states that a call with \<open>step_h \<le> 0\<close> or \<open>tol \<le> 0\<close> fails
  with a configuration error. \<open>find_events\<close> has no check of either argument. With the
  default step, the tolerance 0 and a bracketing routine that returns its candidates, the
  call below returns the empty list.
\<close>

theorem find_events_zero_tol_returns:
  "find_events two_brackets (f_s linear_lon 0) sun_lon 0 0 400 1 0 = Inr []"
  by (simp add: find_events_def two_brackets_def)

text \<open>
  C8, as the code has it. A tolerance that is not positive is not rejected: for every call
  with \<open>tol \<le> 0\<close> that reaches the bracketing routine and in which that routine
  returns its candidates, no candidate can pass the strict test and \<open>find_events\<close>
  returns the empty list.
\<close>

theorem find_events_nonpositive_tol:
  assumes "tol \<le> 0"
    and "find_discrete t0 t1 fn_sign (step_h / 24) = Inr (cands, ys)"
  shows "find_events find_discrete fn_sign fn_val target t0 t1 step_h tol = Inr []"
proof -
  have "\<not> \<bar>x\<bar> < tol" for x :: real
    using assms(1) by linarith
  then have "filter (\<lambda>t. \<bar>ang_diff (fn_val t) target\<bar> < tol) cands = []"
    by (simp add: filter_empty_conv)
  with assms(2) show ?thesis
    by (simp add: find_events_def)
qed

theorem find_events_nonpositive_tol_witness:
  "(- 1 / 2 :: real) \<le> 0
   \<and> two_brackets 0 400 (f_s linear_lon 0) (1 / 24) = Inr ([180, 360], [False, True])
   \<and> find_events two_brackets (f_s linear_lon 0) sun_lon 0 0 400 1 (- 1 / 2) = Inr []"
proof -
  have t: "(- 1 / 2 :: real) \<le> 0"
    by simp
  have h: "two_brackets 0 400 (f_s linear_lon 0) (1 / 24) = Inr ([180, 360], [False, True])"
    by (rule two_brackets_400)
  show ?thesis
    using t h
      find_events_nonpositive_tol [of "- 1 / 2" two_brackets 0 400 "f_s linear_lon 0" 1
        "[180, 360]" "[False, True]" sun_lon 0]
    by simp
qed



section \<open>The window check of the main program\<close>

text \<open>
  C7. For every pair of input times of which, once both carry an offset, the start is
  not before the end, the program exits with the message that the end time must be later
  than the start time. This holds for every oracle, time conversion and bracketing
  routine: none is consulted on this path, and no list of events is produced.
\<close>

theorem main_rejects_invalid_window:
  assumes "utc_ns (if tzinfo start_in = None then tz_localize start_in CST else start_in)
             \<ge> utc_ns (if tzinfo end_in = None then tz_localize end_in CST else end_in)"
  shows "main from_datetime lon_degrees find_discrete start_in end_in
           = Inl (SystemExit End_time_must_be_later)"
  using assms unfolding main_def Let_def by simp

theorem main_rejects_invalid_window_witness:
  "utc_ns (if tzinfo (day 30) = None then tz_localize (day 30) CST else day 30)
     \<ge> utc_ns (if tzinfo (day 1) = None then tz_localize (day 1) CST else day 1)
   \<and> main beijing_days linear_lon two_brackets (day 30) (day 1)
        = Inl (SystemExit End_time_must_be_later)"
proof -
  have h: "utc_ns (if tzinfo (day 30) = None then tz_localize (day 30) CST else day 30)
     \<ge> utc_ns (if tzinfo (day 1) = None then tz_localize (day 1) CST else day 1)"
    by (simp add: day_def tz_localize_def utc_ns_def)
  show ?thesis
    using h main_rejects_invalid_window [OF h, of beijing_days linear_lon two_brackets] by simp
qed

end
